theory Spec2Isabelle
  imports Complex_Main "HOL-Library.Log_Nat" "HOL-Library.Multiset" "HOL-Library.Word"
begin

section \<open>Strings\<close>

text \<open>
  A JavaScript string is a sequence of UTF-16 code units. The model covers the code
  units U+0000 to U+00FF, one \<^typ>\<open>char\<close> each, so \<^const>\<open>length\<close> is the
  \<^verbatim>\<open>.length\<close> of the source. On this range \<^verbatim>\<open>toLowerCase\<close> maps each code unit on
  its own: A to Z and the Latin-1 capitals (U+00C0 to U+00DE without the multiplication
  sign U+00D7) move up by 32, everything else stays.
\<close>

definition toLowerCase_char :: "char \<Rightarrow> char" where
  "toLowerCase_char c =
     (let n = (of_char c :: nat)
      in if (65 \<le> n \<and> n \<le> 90) \<or> (192 \<le> n \<and> n \<le> 222 \<and> n \<noteq> 215)
         then char_of (n + 32) else c)"

definition toLowerCase :: "string \<Rightarrow> string" where
  "toLowerCase s = map toLowerCase_char s"

text \<open>
  White space of \<^verbatim>\<open>trim\<close> and of the regular expression class \<^verbatim>\<open>\s\<close> (the same set in
  ECMAScript): tab, line feed, vertical tab, form feed, carriage return, space and the
  no-break space U+00A0 are its members below U+0100.
\<close>

definition is_whitespace :: "char \<Rightarrow> bool" where
  "is_whitespace c = ((of_char c :: nat) \<in> {9, 10, 11, 12, 13, 32, 160})"

definition trim :: "string \<Rightarrow> string" where
  "trim s = rev (dropWhile is_whitespace (rev (dropWhile is_whitespace s)))"

text \<open>\<^verbatim>\<open>s.replace(/\s+/g, ' ')\<close>: every maximal run of white space becomes one space.\<close>

function replace_whitespace :: "string \<Rightarrow> string" where
  "replace_whitespace [] = []"
| "replace_whitespace (c # cs) =
     (if is_whitespace c then CHR '' '' # replace_whitespace (dropWhile is_whitespace cs)
      else c # replace_whitespace cs)"
  by pat_completeness auto
termination
  by (relation "measure length") (auto simp: le_imp_less_Suc length_dropWhile_le)

text \<open>The normalisation of lines 79 and 80: \<^verbatim>\<open>text.toLowerCase().trim().replace(/\s+/g, ' ')\<close>.\<close>

definition normalizedText :: "string \<Rightarrow> string" where
  "normalizedText text = replace_whitespace (trim (toLowerCase text))"

section \<open>Edit distance\<close>

text \<open>
  \<^verbatim>\<open>levenshteinDistance\<close> (lines 49 to 73) allocates a matrix of \<^verbatim>\<open>null\<close>, writes the
  first column and the first row, and fills the rest row by row. A cell holds
  \<^verbatim>\<open>null\<close> (\<^const>\<open>None\<close>) or a number; the lengths involved are far below \<open>2^53\<close>,
  where the numbers of JavaScript are exact integers. In arithmetic \<^verbatim>\<open>null\<close> counts
  as 0. The loops read and write only cells inside the matrix, and only characters
  inside the strings (the indices run to \<open>len1\<close> and \<open>len2\<close>, the matrix has one row
  and one column more); the lemmas on \<open>wf_matrix\<close> below carry these bounds.
\<close>

type_synonym cell = "int option"

type_synonym matrix = "cell list list"

definition to_number :: "cell \<Rightarrow> int" where
  "to_number c = (case c of None \<Rightarrow> 0 | Some n \<Rightarrow> n)"

definition new_matrix :: "nat \<Rightarrow> nat \<Rightarrow> matrix" where
  "new_matrix len1 len2 = replicate (len1 + 1) (replicate (len2 + 1) None)"

definition get_cell :: "matrix \<Rightarrow> nat \<Rightarrow> nat \<Rightarrow> cell" where
  "get_cell m i j = m ! i ! j"

definition set_cell :: "matrix \<Rightarrow> nat \<Rightarrow> nat \<Rightarrow> cell \<Rightarrow> matrix" where
  "set_cell m i j v = m[i := (m ! i)[j := v]]"

text \<open>\<^verbatim>\<open>for (let i = 0; i <= len1; i++) matrix[i][0] = i;\<close>\<close>

definition init_column :: "nat \<Rightarrow> matrix \<Rightarrow> matrix" where
  "init_column len1 m = fold (\<lambda>i m. set_cell m i 0 (Some (int i))) [0..<len1 + 1] m"

text \<open>\<^verbatim>\<open>for (let j = 0; j <= len2; j++) matrix[0][j] = j;\<close>\<close>

definition init_row :: "nat \<Rightarrow> matrix \<Rightarrow> matrix" where
  "init_row len2 m = fold (\<lambda>j m. set_cell m 0 j (Some (int j))) [0..<len2 + 1] m"

text \<open>The body of the inner loop, lines 63 to 68.\<close>

definition fill_cell :: "string \<Rightarrow> string \<Rightarrow> nat \<Rightarrow> nat \<Rightarrow> matrix \<Rightarrow> matrix" where
  "fill_cell str1 str2 i j m =
     (let cost = (if str1 ! (i - 1) = str2 ! (j - 1) then 0 else 1)
      in set_cell m i j (Some (min (to_number (get_cell m (i - 1) j) + 1)
                              (min (to_number (get_cell m i (j - 1)) + 1)
                                   (to_number (get_cell m (i - 1) (j - 1)) + cost)))))"

definition fill_row :: "string \<Rightarrow> string \<Rightarrow> nat \<Rightarrow> matrix \<Rightarrow> matrix" where
  "fill_row str1 str2 i m = fold (fill_cell str1 str2 i) [1..<length str2 + 1] m"

definition fill_matrix :: "string \<Rightarrow> string \<Rightarrow> matrix \<Rightarrow> matrix" where
  "fill_matrix str1 str2 m = fold (fill_row str1 str2) [1..<length str1 + 1] m"

definition levenshteinDistance :: "string \<Rightarrow> string \<Rightarrow> cell" where
  "levenshteinDistance str1 str2 =
     (let len1 = length str1;
          len2 = length str2;
          m0 = new_matrix len1 len2;
          m1 = init_column len1 m0;
          m2 = init_row len2 m1;
          m3 = fill_matrix str1 str2 m2
      in get_cell m3 len1 len2)"

text \<open>
  The recurrence as the specification words it: \<open>d[i][0] = i\<close>, \<open>d[0][j] = j\<close>, and
  \<open>d[i][j] = min(d[i-1][j] + 1, d[i][j-1] + 1, d[i-1][j-1] + (s1[i-1] == s2[j-1] ? 0 : 1))\<close>.
\<close>

fun dp_table :: "string \<Rightarrow> string \<Rightarrow> nat \<Rightarrow> nat \<Rightarrow> int" where
  "dp_table s1 s2 i 0 = int i"
| "dp_table s1 s2 0 j = int j"
| "dp_table s1 s2 (Suc i) (Suc j) =
     min (dp_table s1 s2 i (Suc j) + 1)
         (min (dp_table s1 s2 (Suc i) j + 1)
              (dp_table s1 s2 i j + (if s1 ! i = s2 ! j then 0 else 1)))"

section \<open>Edit scripts\<close>

text \<open>
  The edit distance in the specification's words: the least number of single-character
  insertions, deletions and substitutions that transform one string into the other. A
  script is read along the first string from left to right: \<open>Keep\<close> copies the next
  character, \<open>Substitute c\<close> replaces it by \<open>c\<close>, \<open>Delete\<close> drops it and \<open>Insert c\<close> puts
  \<open>c\<close> before it. A script that does not fit the string has no result. Every step but
  \<open>Keep\<close> costs 1.
\<close>

datatype edit = Keep | Substitute char | Insert char | Delete

fun apply_edits :: "edit list \<Rightarrow> string \<Rightarrow> string option" where
  "apply_edits [] [] = Some []"
| "apply_edits [] (x # xs) = None"
| "apply_edits (Insert c # es) xs = map_option ((#) c) (apply_edits es xs)"
| "apply_edits (Keep # es) (x # xs) = map_option ((#) x) (apply_edits es xs)"
| "apply_edits (Substitute c # es) (x # xs) = map_option ((#) c) (apply_edits es xs)"
| "apply_edits (Delete # es) (x # xs) = apply_edits es xs"
| "apply_edits (e # es) [] = None"

fun edit_cost :: "edit \<Rightarrow> nat" where
  "edit_cost Keep = 0"
| "edit_cost (Substitute c) = 1"
| "edit_cost (Insert c) = 1"
| "edit_cost Delete = 1"

definition edits_cost :: "edit list \<Rightarrow> nat" where
  "edits_cost es = sum_list (map edit_cost es)"

text \<open>The recurrence once more, on the strings themselves rather than on their prefixes.\<close>

fun lev :: "string \<Rightarrow> string \<Rightarrow> int" where
  "lev [] ys = int (length ys)"
| "lev xs [] = int (length xs)"
| "lev (x # xs) (y # ys) =
     min (lev xs (y # ys) + 1) (min (lev (x # xs) ys + 1) (lev xs ys + (if x = y then 0 else 1)))"

section \<open>Numbers\<close>

text \<open>
  The similarity is computed in IEEE 754 double precision. A finite double is a
  rational, and every operation returns the double nearest to the exact result, ties
  going to the even significand. \<open>fl\<close> is that rounding for the finite range (the
  values of this program lie between 0 and 10000): the exponent is chosen so that the
  significand has 53 bits, and not below that of the subnormal numbers.
\<close>

definition round_half_even :: "rat \<Rightarrow> int" where
  "round_half_even x =
     (let f = \<lfloor>x\<rfloor>; r = x - of_int f
      in if r < 1 / 2 then f
         else if 1 / 2 < r then f + 1
         else if even f then f else f + 1)"

text \<open>\<open>floor_log2 x\<close> is the integer \<open>k\<close> with \<open>2^k \<le> x < 2^(k+1)\<close>, for positive \<open>x\<close>.\<close>

definition floor_log2 :: "rat \<Rightarrow> int" where
  "floor_log2 x =
     (if 1 \<le> x then bitlen \<lfloor>x\<rfloor> - 1 else - bitlen (\<lceil>1 / x\<rceil> - 1))"

definition fl :: "rat \<Rightarrow> rat" where
  "fl x =
     (if x = 0 then 0
      else let e = max (floor_log2 \<bar>x\<bar> - 52) (- 1074)
           in of_int (round_half_even (x / 2 powi e)) * 2 powi e)"

text \<open>\<^verbatim>\<open>Math.round\<close>: the nearest integer, a tie going towards \<open>+\<infinity>\<close>.\<close>

definition Math_round :: "rat \<Rightarrow> rat" where
  "Math_round x = of_int \<lfloor>x + 1 / 2\<rfloor>"

section \<open>Similarity\<close>

text \<open>
  \<^verbatim>\<open>calculateSimilarity\<close> (lines 75 to 91). A text is a string or absent
  (\<^verbatim>\<open>null\<close>, \<^verbatim>\<open>undefined\<close>); \<^verbatim>\<open>!text\<close> holds of an absent text and of the empty string.
  Past the guard of line 76 both texts are strings, which is where \<^const>\<open>the\<close> is
  applied. The result is the rational value of the double the source returns.
\<close>

definition falsy :: "string option \<Rightarrow> bool" where
  "falsy text = (case text of None \<Rightarrow> True | Some s \<Rightarrow> s = [])"

definition calculateSimilarity :: "string option \<Rightarrow> string option \<Rightarrow> rat" where
  "calculateSimilarity text1 text2 =
     (if falsy text1 \<or> falsy text2 then 0
      else
        let normalizedText1 = normalizedText (the text1);
            normalizedText2 = normalizedText (the text2)
        in if normalizedText1 = normalizedText2 then 100
           else
             let maxLength = max (length normalizedText1) (length normalizedText2)
             in if maxLength = 0 then 100
                else
                  let distance = levenshteinDistance normalizedText1 normalizedText2;
                      similarity =
                        fl (fl (of_int (int maxLength - to_number distance) / of_nat maxLength) * 100)
                  in fl (Math_round (fl (similarity * 100)) / 100))"

section \<open>Similar questions\<close>

text \<open>
  A question carries an identifier (the field \<^verbatim>\<open>id\<close>, here \<open>id_field\<close>) and a text; its
  other fields (options, category, difficulty) are the extension of the record and are
  passed through untouched. \<^verbatim>\<open>findSimilarQuestionsForQuestion\<close> (lines
  93 to 109) reads the questions of the manager, here the parameter \<open>questions\<close>, and
  returns each similar question with its \<^verbatim>\<open>similarity\<close>, the pair standing for the
  object \<^verbatim>\<open>{...question, similarity}\<close>. \<^verbatim>\<open>Array.prototype.sort\<close> is stable, and the
  comparator \<^verbatim>\<open>b.similarity - a.similarity\<close> puts the greater similarity first. The
  threshold is a parameter; both callers pass 70, which is also its default.
\<close>

record question =
  id_field :: string
  question_text :: "string option"

definition findSimilarQuestionsForQuestion ::
  "'a question_scheme list \<Rightarrow> 'a question_scheme option \<Rightarrow> rat
     \<Rightarrow> ('a question_scheme \<times> rat) list" where
  "findSimilarQuestionsForQuestion questions targetQuestion threshold =
     (case targetQuestion of
        None \<Rightarrow> []
      | Some target \<Rightarrow>
          if falsy (question_text target) then []
          else
            sort_key (\<lambda>r. - snd r)
              (map (\<lambda>question.
                      (question, calculateSimilarity (question_text target) (question_text question)))
                 (filter (\<lambda>question.
                            if id_field question = id_field target then False
                            else threshold \<le> calculateSimilarity (question_text target)
                                               (question_text question))
                    questions)))"

text \<open>The literal collection of the specification's worked example.\<close>

definition question_1 :: question where
  "question_1 = \<lparr>id_field = ''1'', question_text = Some ''What is the capital of France?''\<rparr>"

definition question_2 :: question where
  "question_2 = \<lparr>id_field = ''2'', question_text = Some ''What is the capital of france''\<rparr>"

definition question_3 :: question where
  "question_3 = \<lparr>id_field = ''3'', question_text = Some ''How tall is Mount Everest?''\<rparr>"

definition literal_questions :: "question list" where
  "literal_questions = [question_1, question_2, question_3]"

section \<open>Auxiliary predicates\<close>

text \<open>A matrix of the given numbers of rows and columns.\<close>

definition wf_matrix :: "matrix \<Rightarrow> nat \<Rightarrow> nat \<Rightarrow> bool" where
  "wf_matrix m rows cols = (length m = rows \<and> (\<forall>i<rows. length (m ! i) = cols))"


section \<open>The matrix holds the recurrence\<close>

lemma wf_new_matrix: "wf_matrix (new_matrix len1 len2) (len1 + 1) (len2 + 1)"
  by (simp add: wf_matrix_def new_matrix_def del: replicate_Suc)

lemma wf_set_cell: "wf_matrix m rows cols \<Longrightarrow> wf_matrix (set_cell m i j v) rows cols"
  by (cases "i < length m") (auto simp: wf_matrix_def set_cell_def nth_list_update)

lemma get_set_cell:
  "wf_matrix m rows cols \<Longrightarrow> i < rows \<Longrightarrow> j < cols \<Longrightarrow>
   get_cell (set_cell m i j v) a b = (if a = i \<and> b = j then v else get_cell m a b)"
  by (auto simp: wf_matrix_def set_cell_def get_cell_def nth_list_update)

lemma init_column_upto:
  "wf_matrix m rows (Suc cols) \<Longrightarrow> k \<le> rows \<Longrightarrow>
   wf_matrix (fold (\<lambda>i m. set_cell m i 0 (Some (int i))) [0..<k] m) rows (Suc cols) \<and>
   (\<forall>a b. get_cell (fold (\<lambda>i m. set_cell m i 0 (Some (int i))) [0..<k] m) a b =
      (if a < k \<and> b = 0 then Some (int a) else get_cell m a b))"
proof (induction k)
  case 0
  then show ?case by simp
next
  case (Suc k)
  let ?m = "fold (\<lambda>i m. set_cell m i 0 (Some (int i))) [0..<k] m"
  from Suc have wf: "wf_matrix ?m rows (Suc cols)"
    and old: "\<And>a b. get_cell ?m a b = (if a < k \<and> b = 0 then Some (int a) else get_cell m a b)"
    and k: "k < rows"
    by simp_all
  have step: "fold (\<lambda>i m. set_cell m i 0 (Some (int i))) [0..<Suc k] m = set_cell ?m k 0 (Some (int k))"
    by simp
  show ?case
    unfolding step using wf_set_cell [OF wf] get_set_cell [OF wf k zero_less_Suc] old
    by (auto simp: less_Suc_eq)
qed

lemma init_row_upto:
  "wf_matrix m (Suc rows) cols \<Longrightarrow> k \<le> cols \<Longrightarrow>
   wf_matrix (fold (\<lambda>j m. set_cell m 0 j (Some (int j))) [0..<k] m) (Suc rows) cols \<and>
   (\<forall>a b. get_cell (fold (\<lambda>j m. set_cell m 0 j (Some (int j))) [0..<k] m) a b =
      (if a = 0 \<and> b < k then Some (int b) else get_cell m a b))"
proof (induction k)
  case 0
  then show ?case by simp
next
  case (Suc k)
  let ?m = "fold (\<lambda>j m. set_cell m 0 j (Some (int j))) [0..<k] m"
  from Suc have wf: "wf_matrix ?m (Suc rows) cols"
    and old: "\<And>a b. get_cell ?m a b = (if a = 0 \<and> b < k then Some (int b) else get_cell m a b)"
    and k: "k < cols"
    by simp_all
  have step: "fold (\<lambda>j m. set_cell m 0 j (Some (int j))) [0..<Suc k] m = set_cell ?m 0 k (Some (int k))"
    by simp
  show ?case
    unfolding step using wf_set_cell [OF wf] get_set_cell [OF wf zero_less_Suc k] old
    by (auto simp: less_Suc_eq)
qed

lemma dp_table_row0: "dp_table s1 s2 0 j = int j"
  by (cases j) simp_all

lemma fill_cell_step:
  assumes wf: "wf_matrix m (Suc len1) (Suc len2)"
    and i: "i < len1" and j: "j < len2"
    and up: "get_cell m i (Suc j) = Some (dp_table s1 s2 i (Suc j))"
    and left: "get_cell m (Suc i) j = Some (dp_table s1 s2 (Suc i) j)"
    and diag: "get_cell m i j = Some (dp_table s1 s2 i j)"
  shows "fill_cell s1 s2 (Suc i) (Suc j) m =
           set_cell m (Suc i) (Suc j) (Some (dp_table s1 s2 (Suc i) (Suc j)))"
  using up left diag by (simp add: fill_cell_def to_number_def)

lemma fill_row_upto:
  assumes wf: "wf_matrix m (Suc len1) (Suc len2)"
    and i: "i < len1"
    and prev: "\<And>b. b \<le> len2 \<Longrightarrow> get_cell m i b = Some (dp_table s1 s2 i b)"
    and col0: "get_cell m (Suc i) 0 = Some (dp_table s1 s2 (Suc i) 0)"
  shows "k \<le> len2 \<Longrightarrow>
         wf_matrix (fold (fill_cell s1 s2 (Suc i)) [1..<Suc k] m) (Suc len1) (Suc len2) \<and>
         (\<forall>a b. get_cell (fold (fill_cell s1 s2 (Suc i)) [1..<Suc k] m) a b =
            (if a = Suc i \<and> 1 \<le> b \<and> b \<le> k then Some (dp_table s1 s2 (Suc i) b)
             else get_cell m a b))"
proof (induction k)
  case 0
  then show ?case using wf by simp
next
  case (Suc k)
  let ?m = "fold (fill_cell s1 s2 (Suc i)) [1..<Suc k] m"
  from Suc have wf': "wf_matrix ?m (Suc len1) (Suc len2)"
    and old: "\<And>a b. get_cell ?m a b =
          (if a = Suc i \<and> 1 \<le> b \<and> b \<le> k then Some (dp_table s1 s2 (Suc i) b)
           else get_cell m a b)"
    and k: "k < len2"
    by simp_all
  have up: "get_cell ?m i (Suc k) = Some (dp_table s1 s2 i (Suc k))"
    using old prev [of "Suc k"] k by simp
  have diag: "get_cell ?m i k = Some (dp_table s1 s2 i k)"
    using old prev [of k] k by simp
  have left: "get_cell ?m (Suc i) k = Some (dp_table s1 s2 (Suc i) k)"
    using old [of "Suc i" k] col0 by (cases k) simp_all
  have step: "fold (fill_cell s1 s2 (Suc i)) [1..<Suc (Suc k)] m =
                set_cell ?m (Suc i) (Suc k) (Some (dp_table s1 s2 (Suc i) (Suc k)))"
    using fill_cell_step [OF wf' i k up left diag] by simp
  have i': "Suc i < Suc len1" and k': "Suc k < Suc len2"
    using i k by simp_all
  show ?case
    unfolding step using wf_set_cell [OF wf'] get_set_cell [OF wf' i' k'] old
    by (auto simp: le_Suc_eq)
qed

lemma fill_row_correct:
  assumes wf: "wf_matrix m (Suc len1) (Suc (length s2))"
    and i: "i < len1"
    and prev: "\<And>b. b \<le> length s2 \<Longrightarrow> get_cell m i b = Some (dp_table s1 s2 i b)"
    and col0: "get_cell m (Suc i) 0 = Some (dp_table s1 s2 (Suc i) 0)"
  shows "wf_matrix (fill_row s1 s2 (Suc i) m) (Suc len1) (Suc (length s2))"
    and "get_cell (fill_row s1 s2 (Suc i) m) a b =
            (if a = Suc i \<and> 1 \<le> b \<and> b \<le> length s2 then Some (dp_table s1 s2 (Suc i) b)
             else get_cell m a b)"
  using fill_row_upto [OF wf i prev col0, of "length s2"] by (simp_all add: fill_row_def)

lemma fill_matrix_upto:
  assumes wf: "wf_matrix m (Suc len1) (Suc (length s2))"
    and row0: "\<And>b. b \<le> length s2 \<Longrightarrow> get_cell m 0 b = Some (dp_table s1 s2 0 b)"
    and col0: "\<And>a. a \<le> len1 \<Longrightarrow> get_cell m a 0 = Some (dp_table s1 s2 a 0)"
  shows "k \<le> len1 \<Longrightarrow>
         wf_matrix (fold (fill_row s1 s2) [1..<Suc k] m) (Suc len1) (Suc (length s2)) \<and>
         (\<forall>a b. get_cell (fold (fill_row s1 s2) [1..<Suc k] m) a b =
            (if 1 \<le> a \<and> a \<le> k \<and> 1 \<le> b \<and> b \<le> length s2 then Some (dp_table s1 s2 a b)
             else get_cell m a b))"
proof (induction k)
  case 0
  then show ?case using wf by simp
next
  case (Suc k)
  let ?m = "fold (fill_row s1 s2) [1..<Suc k] m"
  from Suc have wf': "wf_matrix ?m (Suc len1) (Suc (length s2))"
    and old: "\<And>a b. get_cell ?m a b =
          (if 1 \<le> a \<and> a \<le> k \<and> 1 \<le> b \<and> b \<le> length s2 then Some (dp_table s1 s2 a b)
           else get_cell m a b)"
    and k: "k < len1"
    by simp_all
  have prev: "get_cell ?m k b = Some (dp_table s1 s2 k b)" if "b \<le> length s2" for b
  proof (cases "k = 0 \<or> b = 0")
    case True
    then show ?thesis using old [of k b] row0 [OF that] col0 [of k] k by auto
  next
    case False
    then show ?thesis using old [of k b] that by simp
  qed
  have c0: "get_cell ?m (Suc k) 0 = Some (dp_table s1 s2 (Suc k) 0)"
    using old [of "Suc k" 0] col0 [of "Suc k"] k by simp
  have step: "fold (fill_row s1 s2) [1..<Suc (Suc k)] m = fill_row s1 s2 (Suc k) ?m"
    by simp
  show ?case
    unfolding step
    using fill_row_correct [OF wf' k prev c0] old
    by (auto simp: le_Suc_eq)
qed

lemma levenshteinDistance_dp_table:
  "levenshteinDistance s1 s2 = Some (dp_table s1 s2 (length s1) (length s2))"
proof -
  let ?len1 = "length s1" and ?len2 = "length s2"
  let ?m0 = "new_matrix ?len1 ?len2"
  let ?m1 = "init_column ?len1 ?m0"
  let ?m2 = "init_row ?len2 ?m1"
  let ?m3 = "fill_matrix s1 s2 ?m2"
  have wf0: "wf_matrix ?m0 (Suc ?len1) (Suc ?len2)"
    using wf_new_matrix [of ?len1 ?len2] by simp
  have m1: "wf_matrix ?m1 (Suc ?len1) (Suc ?len2)"
    "\<And>a b. get_cell ?m1 a b = (if a < Suc ?len1 \<and> b = 0 then Some (int a) else get_cell ?m0 a b)"
    using init_column_upto [OF wf0, of "Suc ?len1"] by (simp_all add: init_column_def)
  have m2: "wf_matrix ?m2 (Suc ?len1) (Suc ?len2)"
    "\<And>a b. get_cell ?m2 a b = (if a = 0 \<and> b < Suc ?len2 then Some (int b) else get_cell ?m1 a b)"
    using init_row_upto [OF m1(1), of "Suc ?len2"] by (simp_all add: init_row_def)
  have row0: "get_cell ?m2 0 b = Some (dp_table s1 s2 0 b)" if "b \<le> ?len2" for b
    using m2(2) [of 0 b] that by (simp add: dp_table_row0)
  have col0: "get_cell ?m2 a 0 = Some (dp_table s1 s2 a 0)" if "a \<le> ?len1" for a
    using m2(2) [of a 0] m1(2) [of a 0] that by simp
  have m3: "get_cell ?m3 a b =
      (if 1 \<le> a \<and> a \<le> ?len1 \<and> 1 \<le> b \<and> b \<le> ?len2 then Some (dp_table s1 s2 a b)
       else get_cell ?m2 a b)" for a b
    using fill_matrix_upto [OF m2(1) row0 col0, of ?len1] by (simp add: fill_matrix_def)
  have "get_cell ?m3 ?len1 ?len2 = Some (dp_table s1 s2 ?len1 ?len2)"
  proof (cases "?len1 = 0 \<or> ?len2 = 0")
    case True
    then show ?thesis using m3 [of ?len1 ?len2] row0 [of ?len2] col0 [of ?len1] by auto
  next
    case False
    then have "1 \<le> ?len1" "1 \<le> ?len2"
      by (simp_all add: Suc_le_eq)
    then show ?thesis using m3 [of ?len1 ?len2] by simp
  qed
  then show ?thesis by (simp add: levenshteinDistance_def Let_def)
qed

section \<open>Properties of the recurrence\<close>

lemma dp_table_nonneg: "0 \<le> dp_table s1 s2 i j"
  by (induction s1 s2 i j rule: dp_table.induct) simp_all

lemma dp_table_le_max: "dp_table s1 s2 i j \<le> int (max i j)"
  by (induction s1 s2 i j rule: dp_table.induct) (auto simp: min_le_iff_disj)

lemma dp_table_sym: "dp_table s1 s2 i j = dp_table s2 s1 j i"
proof (induction s1 s2 i j rule: dp_table.induct)
  case (1 s1 s2 i)
  then show ?case by (simp add: dp_table_row0)
next
  case (2 s1 s2 j)
  then show ?case by simp
next
  case (3 s1 s2 i j)
  then show ?case by (simp add: min.commute min.left_commute eq_commute)
qed

lemma levenshteinDistance_sym: "levenshteinDistance a b = levenshteinDistance b a"
  by (simp add: levenshteinDistance_dp_table dp_table_sym [of a b])

section \<open>The recurrence is the least cost of an edit script\<close>

lemma lev_Nil2: "lev xs [] = int (length xs)"
  by (cases xs) simp_all

lemma dp_table_lev:
  "i \<le> length s1 \<Longrightarrow> j \<le> length s2 \<Longrightarrow>
   dp_table s1 s2 i j = lev (rev (take i s1)) (rev (take j s2))"
proof (induction s1 s2 i j rule: dp_table.induct)
  case (1 s1 s2 i)
  then show ?case by (simp add: lev_Nil2)
next
  case (2 s1 s2 j)
  then show ?case by simp
next
  case (3 s1 s2 i j)
  then have i: "i < length s1" and j: "j < length s2" by simp_all
  with 3 show ?case
    by (simp add: take_Suc_conv_app_nth)
qed

lemma lev_insert: "lev s (c # t) \<le> lev s t + 1"
  by (cases s) (simp_all add: min_le_iff_disj)

lemma lev_delete: "lev (x # s) t \<le> lev s t + 1"
  by (cases t) (simp_all add: lev_Nil2 min_le_iff_disj)

lemma lev_substitute: "lev (x # s) (y # t) \<le> lev s t + 1"
  by (simp add: min_le_iff_disj)

lemma lev_keep: "lev (x # s) (x # t) \<le> lev s t"
  by (simp add: min_le_iff_disj)

lemma lev_le_edits_cost:
  "apply_edits es s = Some t \<Longrightarrow> lev s t \<le> int (edits_cost es)"
proof (induction es s arbitrary: t rule: apply_edits.induct)
  case (3 c es xs)
  then obtain t' where t: "t = c # t'" and "apply_edits es xs = Some t'" by auto
  with 3 have "lev xs t' \<le> int (edits_cost es)" by simp
  with lev_insert [of xs c t'] show ?case by (simp add: t edits_cost_def del: lev.simps)
next
  case (4 es x xs)
  then obtain t' where t: "t = x # t'" and "apply_edits es xs = Some t'" by auto
  with 4 have "lev xs t' \<le> int (edits_cost es)" by simp
  with lev_keep [of x xs t'] show ?case by (simp add: t edits_cost_def del: lev.simps)
next
  case (5 c es x xs)
  then obtain t' where t: "t = c # t'" and "apply_edits es xs = Some t'" by auto
  with 5 have "lev xs t' \<le> int (edits_cost es)" by simp
  with lev_substitute [of x xs c t'] show ?case by (simp add: t edits_cost_def del: lev.simps)
next
  case (6 es x xs)
  then have "lev xs t \<le> int (edits_cost es)" by simp
  with lev_delete [of x xs t] show ?case by (simp add: edits_cost_def del: lev.simps)
qed simp_all

lemma edits_insert_all: "apply_edits (map Insert ys) [] = Some ys"
  by (induction ys) simp_all

lemma edits_delete_all: "apply_edits (replicate (length xs) Delete) xs = Some []"
  by (induction xs) simp_all

lemma edits_cost_lev: "\<exists>es. apply_edits es s = Some t \<and> int (edits_cost es) = lev s t"
proof (induction s t rule: lev.induct)
  case (1 ys)
  have "edits_cost (map Insert ys) = length ys"
    by (induction ys) (simp_all add: edits_cost_def)
  with edits_insert_all [of ys] show ?case by auto
next
  case (2 v va)
  let ?xs = "v # va"
  have "edits_cost (replicate (length ?xs) Delete) = length ?xs"
    by (simp add: edits_cost_def sum_list_replicate)
  with edits_delete_all [of ?xs] show ?case
    by (intro exI [of _ "replicate (length ?xs) Delete"]) simp
next
  case (3 x xs y ys)
  from 3(1) obtain e1 where e1: "apply_edits e1 xs = Some (y # ys)" "int (edits_cost e1) = lev xs (y # ys)"
    by blast
  from 3(2) obtain e2 where e2: "apply_edits e2 (x # xs) = Some ys" "int (edits_cost e2) = lev (x # xs) ys"
    by blast
  from 3(3) obtain e3 where e3: "apply_edits e3 xs = Some ys" "int (edits_cost e3) = lev xs ys"
    by blast
  let ?a = "lev xs (y # ys) + 1" and ?b = "lev (x # xs) ys + 1"
  let ?c = "lev xs ys + (if x = y then 0 else 1)"
  have d1: "apply_edits (Delete # e1) (x # xs) = Some (y # ys)" "int (edits_cost (Delete # e1)) = ?a"
    using e1 by (simp_all add: edits_cost_def)
  have d2: "apply_edits (Insert y # e2) (x # xs) = Some (y # ys)" "int (edits_cost (Insert y # e2)) = ?b"
    using e2 by (simp_all add: edits_cost_def)
  let ?e = "(if x = y then Keep else Substitute y) # e3"
  have d3: "apply_edits ?e (x # xs) = Some (y # ys)" "int (edits_cost ?e) = ?c"
    using e3 by (simp_all add: edits_cost_def)
  have "lev (x # xs) (y # ys) = ?a \<or> lev (x # xs) (y # ys) = ?b \<or> lev (x # xs) (y # ys) = ?c"
    by (simp add: min_def)
  with d1 d2 d3 show ?case by metis
qed

lemma apply_edits_append:
  "apply_edits es1 s1 = Some t1 \<Longrightarrow> apply_edits es2 s2 = Some t2 \<Longrightarrow>
   apply_edits (es1 @ es2) (s1 @ s2) = Some (t1 @ t2)"
  by (induction es1 s1 arbitrary: t1 rule: apply_edits.induct) auto

lemma apply_edits_rev:
  "apply_edits es s = Some t \<Longrightarrow> apply_edits (rev es) (rev s) = Some (rev t)"
proof (induction es s arbitrary: t rule: apply_edits.induct)
  case (3 c es xs)
  then obtain t' where t: "t = c # t'" and "apply_edits es xs = Some t'" by auto
  with 3 have "apply_edits (rev es) (rev xs) = Some (rev t')" by simp
  from apply_edits_append [OF this, of "[Insert c]" "[]" "[c]"] show ?case
    by (simp add: t)
next
  case (4 es x xs)
  then obtain t' where t: "t = x # t'" and "apply_edits es xs = Some t'" by auto
  with 4 have "apply_edits (rev es) (rev xs) = Some (rev t')" by simp
  from apply_edits_append [OF this, of "[Keep]" "[x]" "[x]"] show ?case
    by (simp add: t)
next
  case (5 c es x xs)
  then obtain t' where t: "t = c # t'" and "apply_edits es xs = Some t'" by auto
  with 5 have "apply_edits (rev es) (rev xs) = Some (rev t')" by simp
  from apply_edits_append [OF this, of "[Substitute c]" "[x]" "[c]"] show ?case
    by (simp add: t)
next
  case (6 es x xs)
  then have "apply_edits (rev es) (rev xs) = Some (rev t)" by simp
  from apply_edits_append [OF this, of "[Delete]" "[x]" "[]"] show ?case
    by simp
qed simp_all

lemma edits_cost_rev: "edits_cost (rev es) = edits_cost es"
  by (simp add: edits_cost_def rev_map [symmetric])

lemma lev_rev_le: "lev (rev s) (rev t) \<le> lev s t"
proof -
  obtain es where es: "apply_edits es s = Some t" "int (edits_cost es) = lev s t"
    using edits_cost_lev by blast
  from lev_le_edits_cost [OF apply_edits_rev [OF es(1)]] es(2) show ?thesis
    by (simp add: edits_cost_rev)
qed

lemma lev_rev: "lev (rev s) (rev t) = lev s t"
  using lev_rev_le [of s t] lev_rev_le [of "rev s" "rev t"] by simp

lemma levenshteinDistance_lev: "levenshteinDistance s t = Some (lev s t)"
  by (simp add: levenshteinDistance_dp_table dp_table_lev lev_rev)

section \<open>Properties of the normalisation\<close>

lemma of_char_toLowerCase_char:
  "(of_char (toLowerCase_char c) :: nat) =
     (let n = of_char c in
      if (65 \<le> n \<and> n \<le> 90) \<or> (192 \<le> n \<and> n \<le> 222 \<and> n \<noteq> 215) then n + 32 else n)"
  by (auto simp: toLowerCase_char_def Let_def)

lemma is_whitespace_toLowerCase_char: "is_whitespace (toLowerCase_char c) = is_whitespace c"
  by (auto simp: is_whitespace_def of_char_toLowerCase_char Let_def)
















lemma normalizedText_whitespace:
  assumes "\<forall>c\<in>set s. is_whitespace c"
  shows "normalizedText s = []"
proof -
  from assms have "\<forall>c\<in>set (toLowerCase s). is_whitespace c"
    by (simp add: toLowerCase_def is_whitespace_toLowerCase_char)
  then have "dropWhile is_whitespace (toLowerCase s) = []"
    by simp
  then show ?thesis
    by (simp only: normalizedText_def trim_def rev.simps dropWhile.simps
        replace_whitespace.simps)
qed


section \<open>Properties of the rounding\<close>

text \<open>
  \<open>fl\<close> is the rounding it is meant to be: its exponent brackets the number between two
  powers of two, the result differs from the number by at most half a unit in the last
  place, and it returns the doubles one knows (0.1, 2/3, and the ties above \<open>2^53\<close>, which
  go to the even neighbour).
\<close>

lemma round_half_even_nearest: "\<bar>of_int (round_half_even x) - x\<bar> \<le> 1 / 2"
proof -
  have "of_int \<lfloor>x\<rfloor> \<le> x" "x < of_int \<lfloor>x\<rfloor> + 1"
    by linarith+
  then show ?thesis
    by (auto simp: round_half_even_def Let_def abs_le_iff)
qed

lemma floor_log2_bounds:
  assumes "0 < x"
  shows "2 powi floor_log2 x \<le> x" and "x < 2 powi (floor_log2 x + 1)"
proof -
  have "2 powi floor_log2 x \<le> x \<and> x < 2 powi (floor_log2 x + 1)"
  proof (cases "1 \<le> x")
    case True
    let ?n = "\<lfloor>x\<rfloor>"
    from True have n: "0 < ?n" by simp
    then have b: "1 \<le> bitlen ?n"
      using bitlen_eq_zero_iff [of ?n] bitlen_nonneg [of ?n] by linarith
    define k where "k = nat (bitlen ?n - 1)"
    from b have kb: "bitlen ?n = int k + 1" and fk: "floor_log2 x = int k"
      using True by (simp_all add: k_def floor_log2_def)
    from bitlen_bounds [OF n] have lo: "2 ^ k \<le> ?n" and hi: "?n < 2 ^ (k + 1)"
      by (simp_all add: kb k_def [symmetric] nat_add_distrib)
    from lo have "(2::rat) ^ k \<le> of_int ?n"
      by (metis of_int_le_iff of_int_numeral of_int_power)
    also have "\<dots> \<le> x" by simp
    finally have 1: "(2::rat) ^ k \<le> x" .
    from hi have "?n + 1 \<le> 2 ^ (k + 1)" by simp
    then have "(of_int (?n + 1) :: rat) \<le> 2 ^ (k + 1)"
      by (metis of_int_le_iff of_int_numeral of_int_power)
    moreover have "x < of_int (?n + 1)" by linarith
    ultimately have 2: "x < (2::rat) ^ (k + 1)" by simp
    have "int k + 1 = int (k + 1)" by simp
    with 1 2 show ?thesis
      unfolding fk by (simp only: power_int_of_nat)
  next
    case False
    let ?y = "1 / x"
    let ?c = "\<lceil>?y\<rceil> - 1"
    from False assms have y: "1 < ?y" by simp
    then have c: "0 < ?c" by (simp add: less_ceiling_iff)
    then have b: "1 \<le> bitlen ?c"
      using bitlen_eq_zero_iff [of ?c] bitlen_nonneg [of ?c] by linarith
    define k where "k = nat (bitlen ?c - 1)"
    from b have kb: "bitlen ?c = int k + 1" and fk: "floor_log2 x = - (int k + 1)"
      using False by (simp_all add: k_def floor_log2_def)
    from bitlen_bounds [OF c] have lo: "2 ^ k \<le> ?c" and hi: "?c < 2 ^ (k + 1)"
      by (simp_all add: kb k_def [symmetric] nat_add_distrib)
    have cy: "of_int ?c < ?y" "?y \<le> of_int ?c + 1"
      by linarith+
    from lo have "(2::rat) ^ k \<le> of_int ?c"
      by (metis of_int_le_iff of_int_numeral of_int_power)
    with cy have 1: "(2::rat) ^ k < ?y" by simp
    from hi have "?c + 1 \<le> 2 ^ (k + 1)" by simp
    then have "(of_int (?c + 1) :: rat) \<le> 2 ^ (k + 1)"
      by (metis of_int_le_iff of_int_numeral of_int_power)
    moreover have "?y \<le> of_int (?c + 1)" by simp
    ultimately have 2: "?y \<le> (2::rat) ^ (k + 1)" by (rule order_trans [rotated])
    have e1: "- (int k + 1) = - int (Suc k)" and e2: "- (int k + 1) + 1 = - int k"
      by simp_all
    have p1: "(2::rat) powi (- (int k + 1)) = 1 / 2 ^ (k + 1)"
      unfolding e1 by (simp only: power_int_minus power_int_of_nat) (simp add: inverse_eq_divide)
    have p2: "(2::rat) powi (- (int k + 1) + 1) = 1 / 2 ^ k"
      unfolding e2 by (simp only: power_int_minus power_int_of_nat) (simp add: inverse_eq_divide)
    from 2 assms have "1 / 2 ^ (k + 1) \<le> x"
      by (simp add: field_simps)
    moreover from 1 assms have "x < 1 / 2 ^ k"
      by (simp add: field_simps)
    ultimately show ?thesis
      unfolding fk p1 p2 by simp
  qed
  then show "2 powi floor_log2 x \<le> x" and "x < 2 powi (floor_log2 x + 1)"
    by simp_all
qed

lemma fl_examples:
  "fl (1 / 10) = 3602879701896397 / 36028797018963968"
  "fl (2 / 3) = 6004799503160661 / 9007199254740992"
  "fl 9007199254740993 = 9007199254740992"
  "fl 9007199254740995 = 9007199254740996"
  "fl (- (1 / 10)) = - (3602879701896397 / 36028797018963968)"
  by code_simp+

lemma fl_nearest:
  assumes "x \<noteq> 0"
  shows "\<bar>fl x - x\<bar> \<le> 2 powi (max (floor_log2 \<bar>x\<bar> - 52) (- 1074)) / 2"
proof -
  define u :: rat where "u = 2 powi (max (floor_log2 \<bar>x\<bar> - 52) (- 1074))"
  have u: "0 < u" by (simp add: u_def)
  have "fl x - x = (of_int (round_half_even (x / u)) - x / u) * u"
    using assms u by (simp add: fl_def Let_def u_def [symmetric] field_simps)
  then have "\<bar>fl x - x\<bar> = \<bar>of_int (round_half_even (x / u)) - x / u\<bar> * u"
    using u by (simp add: abs_mult)
  also have "\<dots> \<le> 1 / 2 * u"
    using round_half_even_nearest [of "x / u"] u by (intro mult_right_mono) simp_all
  finally show ?thesis by (simp add: u_def)
qed

text \<open>
  Rounding to a double keeps a number that is not negative so, and keeps it below every
  integer bound it is below: an integer is a multiple of the unit in the last place of
  every double under \<open>2^53\<close>.
\<close>

lemma round_half_even_nonneg: "0 \<le> x \<Longrightarrow> 0 \<le> round_half_even x"
  by (simp add: round_half_even_def Let_def)

lemma round_half_even_le:
  assumes "x \<le> of_int n"
  shows "round_half_even x \<le> n"
proof (cases "x = of_int \<lfloor>x\<rfloor>")
  case True
  then have "x - of_int \<lfloor>x\<rfloor> < 1 / 2" by simp
  then have "round_half_even x = \<lfloor>x\<rfloor>"
    by (simp add: round_half_even_def Let_def)
  with assms show ?thesis by (simp add: floor_le_iff)
next
  case False
  have "\<lfloor>x\<rfloor> \<le> n" using assms by (simp add: floor_le_iff)
  moreover have "\<lfloor>x\<rfloor> \<noteq> n"
  proof
    assume "\<lfloor>x\<rfloor> = n"
    then have "x \<le> of_int \<lfloor>x\<rfloor>" using assms by simp
    moreover have "of_int \<lfloor>x\<rfloor> \<le> x" by (rule of_int_floor_le)
    ultimately have "x = of_int \<lfloor>x\<rfloor>" by (rule antisym)
    with False show False by contradiction
  qed
  ultimately have "\<lfloor>x\<rfloor> + 1 \<le> n" by simp
  moreover have "round_half_even x \<le> \<lfloor>x\<rfloor> + 1"
    by (simp add: round_half_even_def Let_def)
  ultimately show ?thesis by simp
qed

lemma floor_log2_le_52:
  assumes "0 < x" and "x < 2 ^ 53"
  shows "floor_log2 x \<le> 52"
proof (cases "1 \<le> x")
  case True
  have "\<lfloor>x\<rfloor> < 2 ^ 53"
    using assms(2) by (simp add: floor_less_iff)
  then have "bitlen \<lfloor>x\<rfloor> \<le> 53"
    by (simp add: bitlen_le_iff_power)
  with True show ?thesis by (simp add: floor_log2_def)
next
  case False
  then show ?thesis
    using bitlen_nonneg [of "\<lceil>1 / x\<rceil> - 1"] by (simp add: floor_log2_def)
qed

lemma fl_nonneg: "0 \<le> x \<Longrightarrow> 0 \<le> fl x"
  by (simp add: fl_def Let_def round_half_even_nonneg)

lemma fl_le_int:
  assumes "0 \<le> x" and "x \<le> of_int n" and "x < 2 ^ 53"
  shows "fl x \<le> of_int n"
proof (cases "x = 0")
  case True
  with assms show ?thesis by (simp add: fl_def)
next
  case False
  define e where "e = max (floor_log2 \<bar>x\<bar> - 52) (- 1074)"
  define k where "k = nat (- e)"
  from False assms have "floor_log2 \<bar>x\<bar> \<le> 52"
    by (intro floor_log2_le_52) simp_all
  then have "e \<le> 0" by (simp add: e_def)
  then have e: "e = - int k" by (simp add: k_def)
  have p: "(2::rat) powi e = 1 / 2 ^ k"
    unfolding e by (simp add: power_int_minus divide_inverse)
  have "x / 2 powi e = x * 2 ^ k" by (simp add: p)
  also have "\<dots> \<le> of_int n * 2 ^ k"
    using assms(2) by simp
  also have "\<dots> = of_int (n * 2 ^ k)" by simp
  finally have "round_half_even (x / 2 powi e) \<le> n * 2 ^ k"
    by (rule round_half_even_le)
  then have "(of_int (round_half_even (x / 2 powi e)) :: rat) \<le> of_int (n * 2 ^ k)"
    by (simp only: of_int_le_iff)
  then have "of_int (round_half_even (x / 2 powi e)) * 2 powi e \<le> (of_int n :: rat)"
    by (simp add: p field_simps)
  with False show ?thesis
    by (simp add: fl_def Let_def e_def)
qed

lemma Math_round_bounds:
  assumes "0 \<le> x" and "x \<le> of_int n"
  shows "0 \<le> Math_round x" and "Math_round x \<le> of_int n"
proof -
  show "0 \<le> Math_round x" using assms(1) by (simp add: Math_round_def)
  have "\<lfloor>x + 1 / 2\<rfloor> \<le> n"
    using assms(2) by (simp add: floor_le_iff) 
  then show "Math_round x \<le> of_int n" by (simp add: Math_round_def)
qed

lemma levenshteinDistance_bounds:
  "0 \<le> to_number (levenshteinDistance s1 s2)"
  "to_number (levenshteinDistance s1 s2) \<le> int (max (length s1) (length s2))"
  by (simp_all add: levenshteinDistance_dp_table to_number_def dp_table_nonneg dp_table_le_max)

lemma score_range:
  assumes d0: "0 \<le> d" and dM: "d \<le> int M" and M: "0 < M"
  defines "q \<equiv> (of_int (int M - d) / of_nat M :: rat)"
  shows "0 \<le> fl (Math_round (fl (fl (fl q * 100) * 100)) / 100)"
    and "fl (Math_round (fl (fl (fl q * 100) * 100)) / 100) \<le> 100"
proof -
  have q0: "0 \<le> q" using dM M by (simp add: q_def)
  have "of_int (int M - d) \<le> (of_nat M :: rat)"
    using d0 by simp
  then have q1: "q \<le> 1" using M by (simp add: q_def)
  have a0: "0 \<le> fl q" using q0 by (rule fl_nonneg)
  have a1: "fl q \<le> 1" using fl_le_int [of q 1] q0 q1 by simp
  let ?b = "fl (fl q * 100)"
  have b0: "0 \<le> ?b" using a0 by (intro fl_nonneg) simp
  have b1: "?b \<le> 100" using fl_le_int [of "fl q * 100" 100] a0 a1 by simp
  let ?c = "fl (?b * 100)"
  have c0: "0 \<le> ?c" using b0 by (intro fl_nonneg) simp
  have c1: "?c \<le> 10000" using fl_le_int [of "?b * 100" 10000] b0 b1 by simp
  let ?k = "Math_round ?c"
  have k0: "0 \<le> ?k" using c0 by (simp add: Math_round_def)
  have k1: "?k \<le> 10000" using Math_round_bounds(2) [of ?c 10000] c0 c1 by simp
  show "0 \<le> fl (?k / 100)" using k0 by (intro fl_nonneg) simp
  show "fl (?k / 100) \<le> 100" using fl_le_int [of "?k / 100" 100] k0 k1 by simp
qed

section \<open>The similarity of two texts\<close>

text \<open>
  C2, as the specification states it, fails: two empty strings do not score 100.
\<close>

theorem calculateSimilarity_empty_not_100:
  "calculateSimilarity (Some '''') (Some '''') \<noteq> 100"
  by (simp add: calculateSimilarity_def falsy_def)

text \<open>
  C2, amended. When both inputs are the empty string the result is exactly 0: the guard
  on missing text of line 76 comes first and returns before the texts are compared.
\<close>

theorem calculateSimilarity_empty_empty:
  "calculateSimilarity (Some '''') (Some '''') = 0"
  by (simp add: calculateSimilarity_def falsy_def)

text \<open>
  C3, as the specification states it, fails: a record whose text is the empty string
  does not have similarity 100 to itself.
\<close>

theorem calculateSimilarity_self_empty_text:
  "calculateSimilarity (question_text \<lparr>id_field = ''1'', question_text = Some ''''\<rparr>)
     (question_text \<lparr>id_field = ''1'', question_text = Some ''''\<rparr>) \<noteq> 100"
  by (simp add: calculateSimilarity_def falsy_def)

text \<open>
  C3, amended. For every non-empty string \<open>a\<close>, the similarity of \<open>a\<close> to itself is
  exactly 100.
\<close>

theorem calculateSimilarity_self:
  "a \<noteq> [] \<Longrightarrow> calculateSimilarity (Some a) (Some a) = 100"
  by (simp add: calculateSimilarity_def falsy_def)

theorem calculateSimilarity_self_witness:
  "''x'' \<noteq> [] \<and> calculateSimilarity (Some ''x'') (Some ''x'') = 100"
  using calculateSimilarity_self [of "''x''"] by simp

text \<open>
  C4. The edit distance is the entry \<open>d[m][n]\<close> of the table of the classic recurrence
  (base cases \<open>d[i][0] = i\<close> and \<open>d[0][j] = j\<close>, substitution cost 1), where \<open>m\<close> and
  \<open>n\<close> are the lengths of the two strings; it is a number and not negative; the distance
  between "kitten" and "sitting" is 3; and it is the Levenshtein distance: some edit
  script turns the first string into the second at this cost, and none at a lower one.
\<close>

theorem levenshteinDistance_recurrence:
  "levenshteinDistance s1 s2 = Some (dp_table s1 s2 (length s1) (length s2)) \<and>
   0 \<le> to_number (levenshteinDistance s1 s2) \<and>
   levenshteinDistance ''kitten'' ''sitting'' = Some 3 \<and>
   (\<exists>es. apply_edits es s1 = Some s2 \<and>
      int (edits_cost es) = to_number (levenshteinDistance s1 s2)) \<and>
   (\<forall>es. apply_edits es s1 = Some s2 \<longrightarrow>
      to_number (levenshteinDistance s1 s2) \<le> int (edits_cost es))"
proof (intro conjI)
  show "levenshteinDistance s1 s2 = Some (dp_table s1 s2 (length s1) (length s2))"
    by (rule levenshteinDistance_dp_table)
  show "0 \<le> to_number (levenshteinDistance s1 s2)"
    by (simp add: levenshteinDistance_dp_table to_number_def dp_table_nonneg)
  show "levenshteinDistance ''kitten'' ''sitting'' = Some 3"
    by code_simp
  show "\<exists>es. apply_edits es s1 = Some s2 \<and>
      int (edits_cost es) = to_number (levenshteinDistance s1 s2)"
    using edits_cost_lev [of s1 s2] by (simp add: levenshteinDistance_lev to_number_def)
  show "\<forall>es. apply_edits es s1 = Some s2 \<longrightarrow>
      to_number (levenshteinDistance s1 s2) \<le> int (edits_cost es)"
    using lev_le_edits_cost [of _ s1 s2] by (simp add: levenshteinDistance_lev to_number_def)
qed

theorem levenshteinDistance_recurrence_witness:
  "apply_edits [Substitute CHR ''s'', Keep, Keep, Keep, Substitute CHR ''i'', Keep,
      Insert CHR ''g''] ''kitten'' = Some ''sitting'' \<and>
   to_number (levenshteinDistance ''kitten'' ''sitting'') \<le>
     int (edits_cost [Substitute CHR ''s'', Keep, Keep, Keep, Substitute CHR ''i'', Keep,
       Insert CHR ''g''])"
proof -
  let ?es = "[Substitute CHR ''s'', Keep, Keep, Keep, Substitute CHR ''i'', Keep,
      Insert CHR ''g'']"
  have fits: "apply_edits ?es ''kitten'' = Some ''sitting''"
    by simp
  have "\<forall>es. apply_edits es ''kitten'' = Some ''sitting'' \<longrightarrow>
      to_number (levenshteinDistance ''kitten'' ''sitting'') \<le> int (edits_cost es)"
    by (intro levenshteinDistance_recurrence [of "''kitten''" "''sitting''",
          THEN conjunct2, THEN conjunct2, THEN conjunct2, THEN conjunct2])
  with fits show ?thesis by blast
qed

text \<open>
  C6. The similarity is symmetric in its two texts, and so is the edit distance in its
  two strings.
\<close>

theorem similarity_symmetric:
  "calculateSimilarity a b = calculateSimilarity b a \<and>
   levenshteinDistance s1 s2 = levenshteinDistance s2 s1"
proof
  show "calculateSimilarity a b = calculateSimilarity b a"
    by (auto simp: calculateSimilarity_def Let_def max.commute
        levenshteinDistance_sym [of "normalizedText (the a)"])
  show "levenshteinDistance s1 s2 = levenshteinDistance s2 s1"
    by (rule levenshteinDistance_sym)
qed

text \<open>
  C5. The similarity of any two texts, present or absent, lies between 0 and 100; and
  the edit distance of two strings never exceeds the greater of their lengths, which is
  what keeps the quotient of line 88 between 0 and 1.
\<close>

theorem calculateSimilarity_range:
  "0 \<le> calculateSimilarity a b \<and> calculateSimilarity a b \<le> 100 \<and>
   to_number (levenshteinDistance s1 s2) \<le> int (max (length s1) (length s2))"
proof -
  have "0 \<le> calculateSimilarity a b \<and> calculateSimilarity a b \<le> 100"
  proof (cases "falsy a \<or> falsy b")
    case True
    then show ?thesis by (simp add: calculateSimilarity_def)
  next
    case False
    let ?n1 = "normalizedText (the a)" and ?n2 = "normalizedText (the b)"
    let ?M = "max (length ?n1) (length ?n2)"
    let ?d = "to_number (levenshteinDistance ?n1 ?n2)"
    show ?thesis
    proof (cases "?n1 = ?n2 \<or> ?M = 0")
      case True
      with False show ?thesis by (auto simp: calculateSimilarity_def Let_def)
    next
      case other: False
      then have "?M \<noteq> 0" by blast
      then have M: "0 < ?M" by (simp only: neq0_conv)
      from other have ne: "?n1 \<noteq> ?n2" "?M \<noteq> 0" by blast+
      from False have g: "\<not> (falsy a \<or> falsy b)" .
      have "calculateSimilarity a b =
          fl (Math_round (fl (fl (fl (of_int (int ?M - ?d) / of_nat ?M) * 100) * 100)) / 100)"
        unfolding calculateSimilarity_def Let_def
        by (simp only: g ne if_False)
      then show ?thesis
        using score_range [OF levenshteinDistance_bounds(1) levenshteinDistance_bounds(2) M]
        by simp
    qed
  qed
  then show ?thesis
    using levenshteinDistance_bounds(2) [of s1 s2] by simp
qed

text \<open>
  C10. Two inputs that are not empty but consist of white space only score exactly 100:
  both normalise to the empty string, and the comparison of the normalised forms comes
  before any look at their lengths. The guard that returns 0 tests the raw inputs, and
  such inputs pass it.
\<close>

theorem calculateSimilarity_whitespace_only:
  assumes "a \<noteq> []" and "b \<noteq> []"
    and "\<forall>c\<in>set a. is_whitespace c" and "\<forall>c\<in>set b. is_whitespace c"
  shows "normalizedText a = [] \<and> normalizedText b = [] \<and>
    \<not> falsy (Some a) \<and> \<not> falsy (Some b) \<and>
    calculateSimilarity (Some a) (Some b) = 100"
  using assms by (simp add: calculateSimilarity_def falsy_def normalizedText_whitespace)

theorem calculateSimilarity_whitespace_only_witness:
  "'' '' \<noteq> [] \<and> [CHR 0x09, CHR 0x09] \<noteq> [] \<and>
   list_all is_whitespace '' '' \<and> list_all is_whitespace [CHR 0x09, CHR 0x09] \<and>
   calculateSimilarity (Some '' '') (Some [CHR 0x09, CHR 0x09]) = 100"
  using calculateSimilarity_whitespace_only [of "'' ''" "[CHR 0x09, CHR 0x09]"]
  by (simp add: is_whitespace_def)

section \<open>Similar questions\<close>

lemma sorted_descending_sort_key:
  "sorted_wrt (\<lambda>a b. snd b \<le> (snd a :: rat)) (sort_key (\<lambda>r. - snd r) xs)"
proof -
  have "sorted (map (\<lambda>r. - snd r) (sort_key (\<lambda>r. - snd r) xs))"
    by (rule sorted_sort_key)
  then show ?thesis
    by (simp add: sorted_map)
qed

text \<open>
  C1. For a target whose text is present and not empty, the result holds exactly the
  questions whose identifier differs from the target's and whose similarity to the
  target's text reaches the threshold, each as often as it occurs in the collection and
  each paired with that similarity; the similarities descend along the result; and the
  target's identifier does not occur in it.
\<close>

theorem findSimilarQuestionsForQuestion_result:
  assumes "\<not> falsy (question_text target)"
  shows "mset (findSimilarQuestionsForQuestion questions (Some target) threshold) =
      mset (map (\<lambda>q. (q, calculateSimilarity (question_text target) (question_text q)))
        (filter (\<lambda>q. id_field q \<noteq> id_field target \<and>
            threshold \<le> calculateSimilarity (question_text target) (question_text q))
          questions)) \<and>
    sorted_wrt (\<lambda>a b. snd b \<le> snd a)
      (findSimilarQuestionsForQuestion questions (Some target) threshold) \<and>
    id_field target \<notin>
      set (map (\<lambda>r. id_field (fst r))
        (findSimilarQuestionsForQuestion questions (Some target) threshold))"
proof -
  have eq: "(\<lambda>q. if id_field q = id_field target then False
               else threshold \<le> calculateSimilarity (question_text target) (question_text q)) =
        (\<lambda>q. id_field q \<noteq> id_field target \<and>
            threshold \<le> calculateSimilarity (question_text target) (question_text q))"
    by auto
  show ?thesis
    using assms sorted_descending_sort_key
    by (auto simp: findSimilarQuestionsForQuestion_def eq)
qed

theorem findSimilarQuestionsForQuestion_result_witness:
  "\<not> falsy (question_text question_1) \<and>
   mset (findSimilarQuestionsForQuestion literal_questions (Some question_1) 70) =
      mset (map (\<lambda>q. (q, calculateSimilarity (question_text question_1) (question_text q)))
        (filter (\<lambda>q. id_field q \<noteq> id_field question_1 \<and>
            70 \<le> calculateSimilarity (question_text question_1) (question_text q))
          literal_questions)) \<and>
    sorted_wrt (\<lambda>a b. snd b \<le> snd a)
      (findSimilarQuestionsForQuestion literal_questions (Some question_1) 70) \<and>
    id_field question_1 \<notin>
      set (map (\<lambda>r. id_field (fst r))
        (findSimilarQuestionsForQuestion literal_questions (Some question_1) 70))"
proof -
  have "\<not> falsy (question_text question_1)"
    by (simp add: question_1_def falsy_def)
  from this findSimilarQuestionsForQuestion_result [OF this, of literal_questions 70]
  show ?thesis by (rule conjI)
qed

text \<open>
  C8. When the target is absent, or its text is absent or the empty string, the result
  is the empty sequence, whatever the collection and the threshold; nothing is raised.
\<close>

theorem findSimilarQuestionsForQuestion_no_target:
  assumes "targetQuestion = None \<or>
     (\<exists>target. targetQuestion = Some target \<and>
        (question_text target = None \<or> question_text target = Some ''''))"
  shows "findSimilarQuestionsForQuestion questions targetQuestion threshold = []"
  using assms by (auto simp: findSimilarQuestionsForQuestion_def falsy_def)

theorem findSimilarQuestionsForQuestion_no_target_witness:
  "findSimilarQuestionsForQuestion literal_questions None 70 = [] \<and>
   findSimilarQuestionsForQuestion literal_questions
     (Some \<lparr>id_field = ''1'', question_text = Some ''''\<rparr>) 70 = [] \<and>
   findSimilarQuestionsForQuestion literal_questions
     (Some \<lparr>id_field = ''1'', question_text = None\<rparr>) 70 = []"
  using findSimilarQuestionsForQuestion_no_target [of None literal_questions 70]
    findSimilarQuestionsForQuestion_no_target
      [of "Some \<lparr>id_field = ''1'', question_text = Some ''''\<rparr>" literal_questions 70]
    findSimilarQuestionsForQuestion_no_target
      [of "Some \<lparr>id_field = ''1'', question_text = None\<rparr>" literal_questions 70]
  by simp

subsection \<open>The worked example\<close>

lemma normalizedText_question_1:
  "normalizedText ''What is the capital of France?'' = ''what is the capital of france?''"
  by code_simp

lemma normalizedText_question_2:
  "normalizedText ''What is the capital of france'' = ''what is the capital of france''"
  by code_simp

lemma normalizedText_question_3:
  "normalizedText ''How tall is Mount Everest?'' = ''how tall is mount everest?''"
  by code_simp

lemma distance_1_2:
  "levenshteinDistance ''what is the capital of france?'' ''what is the capital of france'' =
     Some 1"
  by code_simp

lemma distance_1_3:
  "levenshteinDistance ''what is the capital of france?'' ''how tall is mount everest?'' =
     Some 24"
  by code_simp

lemma score_29_30: "fl (Math_round (fl (fl (fl (29 / 30) * 100) * 100)) / 100) = fl (9667 / 100)"
  by code_simp

lemma score_6_30: "fl (Math_round (fl (fl (fl (6 / 30) * 100) * 100)) / 100) = 20"
  by code_simp

lemma fl_9667: "96 < fl (9667 / 100) \<and> fl (9667 / 100) < 97"
  by code_simp

lemma similarity_1_2:
  "calculateSimilarity (Some ''What is the capital of France?'')
     (Some ''What is the capital of france'') = fl (9667 / 100)"
  using score_29_30
  by (simp add: calculateSimilarity_def falsy_def normalizedText_question_1
      normalizedText_question_2 distance_1_2 to_number_def)

lemma similarity_1_3:
  "calculateSimilarity (Some ''What is the capital of France?'')
     (Some ''How tall is Mount Everest?'') = 20"
  using score_6_30
  by (simp add: calculateSimilarity_def falsy_def normalizedText_question_1
      normalizedText_question_3 distance_1_3 to_number_def)

text \<open>
  C9. For the literal collection, the first question as target and threshold 70, the
  result is exactly the second question, with the double nearest to 96.67 as its
  similarity, a number between 96 and 97.
\<close>

theorem findSimilarQuestionsForQuestion_literal:
  "findSimilarQuestionsForQuestion literal_questions (Some question_1) 70 =
     [(question_2, fl (9667 / 100))] \<and>
   96 < fl (9667 / 100) \<and> fl (9667 / 100) < 97"
  using fl_9667
  by (simp add: findSimilarQuestionsForQuestion_def literal_questions_def question_1_def
      question_2_def question_3_def falsy_def similarity_1_2 similarity_1_3)

end
